theory Spec2Isabelle
  imports Main
begin

section \<open>Exceptions\<close>

text \<open>
  The Python exceptions that the helpers of \<^verbatim>\<open>utils.py\<close> can raise. A function that
  may raise returns \<open>error + 'a\<close>, with \<open>Inl\<close> for the exception.
\<close>

datatype error = IndexError | ValueError | ZeroDivisionError | RecursionError

section \<open>Python strings\<close>

text \<open>
  A Python \<^verbatim>\<open>str\<close> is a sequence of Unicode code points. A code point is modelled by
  its number, so every character that a \<^verbatim>\<open>str\<close> can hold has its place in the model.
  \<open>str\<close> turns a literal of ASCII characters into such a sequence: \<open>str ''ab''\<close> is
  \<open>[97, 98]\<close>.
\<close>

type_synonym pystr = "nat list"

definition str :: "string \<Rightarrow> pystr" where
  "str s = map of_char s"

section \<open>Python builtins used by the helpers\<close>

text \<open>
  \<^verbatim>\<open>int(s, base)\<close> on a \<^verbatim>\<open>str\<close> consults the Unicode database of the interpreter: which
  code points are whitespace, and which are decimal digits with which value. The
  database is no part of the repository and grows with the version of Python, so it is a
  parameter \<open>db\<close> of the model. It is asked about the code points from 128 on only;
  what CPython does with ASCII is fixed in its code.
\<close>

record unicode_db =
  db_isspace :: "nat \<Rightarrow> bool"
  db_todecimal :: "nat \<Rightarrow> nat option"




text \<open>
  \<^verbatim>\<open>Py_UNICODE_ISSPACE\<close> and \<^verbatim>\<open>Py_UNICODE_TODECIMAL\<close> of CPython. Before it parses,
  \<^verbatim>\<open>int\<close> rewrites a \<^verbatim>\<open>str\<close> that is not pure ASCII
  (\<^verbatim>\<open>_PyUnicode_TransformDecimalAndSpaceToASCII\<close>): a code point below 127 stays, a
  whitespace becomes a space (32), a decimal digit of value \<open>d\<close> becomes the ASCII digit
  \<open>48 + d\<close>, and at any other code point the rewriting puts a question mark (63)
  and stops.
\<close>

definition py_unicode_isspace :: "unicode_db \<Rightarrow> nat \<Rightarrow> bool" where
  "py_unicode_isspace db c =
     (if c < 128 then c \<in> {9, 10, 11, 12, 13, 28, 29, 30, 31, 32} else db_isspace db c)"

definition py_unicode_todecimal :: "unicode_db \<Rightarrow> nat \<Rightarrow> nat option" where
  "py_unicode_todecimal db c =
     (if c < 128 then (if 48 \<le> c \<and> c \<le> 57 then Some (c - 48) else None)
      else db_todecimal db c)"

fun transform_decimal_and_space :: "unicode_db \<Rightarrow> pystr \<Rightarrow> pystr" where
  "transform_decimal_and_space db [] = []"
| "transform_decimal_and_space db (c # rest) =
     (if c < 127 then c # transform_decimal_and_space db rest
      else if py_unicode_isspace db c then 32 # transform_decimal_and_space db rest
      else
        (case py_unicode_todecimal db c of
           None \<Rightarrow> [63]
         | Some d \<Rightarrow> (48 + d) # transform_decimal_and_space db rest))"

definition to_ascii :: "unicode_db \<Rightarrow> pystr \<Rightarrow> pystr" where
  "to_ascii db s = (if list_all (\<lambda>c. c < 128) s then s else transform_decimal_and_space db s)"

text \<open>
  The parser proper (\<^verbatim>\<open>PyLong_FromString\<close>), on the rewritten string, for the bases 10
  and 16 that the helpers use: whitespace (tab, newline, vertical tab, form feed,
  carriage return, space) is skipped, then comes an optional sign (\<open>+\<close> is 43, \<open>-\<close>
  is 45), then for base 16 an optional \<^verbatim>\<open>0x\<close> or \<^verbatim>\<open>0X\<close> (48, then 120 or 88) with one
  underscore (95) allowed after it, then digits with single underscores allowed between
  them, then whitespace up to the end. Anything else raises ValueError. \<open>digit_value\<close>
  is CPython's digit table, with 37 for a code point that is no digit in any base. The
  helpers call \<^verbatim>\<open>int(s)\<close> in base 10 on strings of one character only, far below the
  length at which Python 3.11 refuses a decimal string.
\<close>

definition py_isspace :: "nat \<Rightarrow> bool" where
  "py_isspace c = (c \<in> {9, 10, 11, 12, 13, 32})"

definition digit_value :: "nat \<Rightarrow> nat" where
  "digit_value c =
     (if 48 \<le> c \<and> c \<le> 57 then c - 48
      else if 97 \<le> c \<and> c \<le> 122 then c - 97 + 10
      else if 65 \<le> c \<and> c \<le> 90 then c - 65 + 10
      else 37)"

fun scan_digits :: "nat \<Rightarrow> bool \<Rightarrow> nat \<Rightarrow> int \<Rightarrow> pystr \<Rightarrow> error + (nat \<times> int \<times> pystr)" where
  "scan_digits base prev_us digits acc [] =
     (if prev_us then Inl ValueError else Inr (digits, acc, []))"
| "scan_digits base prev_us digits acc (c # rest) =
     (if c = 95 then
        (if prev_us then Inl ValueError else scan_digits base True digits acc rest)
      else if digit_value c < base then
        scan_digits base False (Suc digits) (acc * int base + int (digit_value c)) rest
      else if prev_us then Inl ValueError
      else Inr (digits, acc, c # rest))"

definition strip_sign :: "pystr \<Rightarrow> int \<times> pystr" where
  "strip_sign s =
     (case s of
        [] \<Rightarrow> (1, s)
      | c # rest \<Rightarrow>
          if c = 43 then (1, rest)
          else if c = 45 then (- 1, rest)
          else (1, s))"

definition strip_prefix :: "nat \<Rightarrow> pystr \<Rightarrow> pystr" where
  "strip_prefix base s =
     (case s of
        z # x # rest \<Rightarrow>
          if z = 48 \<and> base = 16 \<and> (x = 120 \<or> x = 88) then
            (case rest of
               [] \<Rightarrow> rest
             | u # rest' \<Rightarrow> if u = 95 then rest' else rest)
          else s
      | _ \<Rightarrow> s)"

definition py_long_from_string :: "pystr \<Rightarrow> nat \<Rightarrow> error + int" where
  "py_long_from_string s base =
     (case strip_sign (dropWhile py_isspace s) of (sign, s2) \<Rightarrow>
        (let s3 = strip_prefix base s2
         in if s3 \<noteq> [] \<and> hd s3 = 95 then Inl ValueError
            else
              (case scan_digits base False 0 0 s3 of
                 Inl e \<Rightarrow> Inl e
               | Inr (digits, acc, rest) \<Rightarrow>
                   if digits = 0 then Inl ValueError
                   else if dropWhile py_isspace rest \<noteq> [] then Inl ValueError
                   else Inr (sign * acc))))"

definition py_int :: "unicode_db \<Rightarrow> pystr \<Rightarrow> nat \<Rightarrow> error + int" where
  "py_int db s base = py_long_from_string (to_ascii db s) base"





section \<open>Math helpers\<close>

text \<open>
  \<^verbatim>\<open>
  def cap(value: int, cap_value: int) -> int:
      r = value % cap_value
      return cap_value if r == 0 else r
  \<close>
  Python's \<^verbatim>\<open>%\<close> on integers is the floor remainder (the sign of the divisor), which is
  \<open>mod\<close> on \<open>int\<close>; a zero divisor raises ZeroDivisionError.
\<close>

definition py_mod :: "int \<Rightarrow> int \<Rightarrow> error + int" where
  "py_mod a b = (if b = 0 then Inl ZeroDivisionError else Inr (a mod b))"

definition py_floordiv :: "int \<Rightarrow> int \<Rightarrow> error + int" where
  "py_floordiv a b = (if b = 0 then Inl ZeroDivisionError else Inr (a div b))"

definition cap :: "int \<Rightarrow> int \<Rightarrow> error + int" where
  "cap v cap_value =
     (case py_mod v cap_value of
        Inl e \<Rightarrow> Inl e
      | Inr r \<Rightarrow> Inr (if r = 0 then cap_value else r))"


text \<open>
  \<^verbatim>\<open>
  def gcd(a: int, b: int) -> int:
      while b != 0:
          a, b = b, a % b
      return abs(a)
  \<close>
  The loop is a tail recursion; \<^verbatim>\<open>a % b\<close> is only evaluated with \<open>b \<noteq> 0\<close>, so it never
  raises. The absolute value of \<open>b\<close> decreases at every iteration.
\<close>

function gcd_py :: "int \<Rightarrow> int \<Rightarrow> int" where
  "gcd_py a b = (if b \<noteq> 0 then gcd_py b (a mod b) else \<bar>a\<bar>)"
  by pat_completeness auto
termination
  by (relation "measure (\<lambda>(a, b). nat \<bar>b\<bar>)") (auto simp: abs_mod_less)

declare gcd_py.simps [simp del]

text \<open>
  \<^verbatim>\<open>
  def lcm(a: int, b: int) -> int:
      return abs(a * b) // gcd(a, b)
  \<close>
\<close>

definition lcm_py :: "int \<Rightarrow> int \<Rightarrow> error + int" where
  "lcm_py a b = py_floordiv \<bar>a * b\<bar> (gcd_py a b)"

section \<open>Direction enum\<close>

text \<open>
  \<^verbatim>\<open>class Dir(Enum)\<close> has exactly the four members below, so the final
  \<^verbatim>\<open>raise ValueError\<close> of \<^verbatim>\<open>rotate\<close> and \<^verbatim>\<open>counter_clockwise\<close> is unreachable. The
  equations keep the order of the source's \<^verbatim>\<open>if\<close> chain.
\<close>

datatype Dir = UP | DOWN | LEFT | RIGHT

fun rotate_dir :: "Dir \<Rightarrow> Dir" where
  "rotate_dir UP = RIGHT"
| "rotate_dir DOWN = LEFT"
| "rotate_dir LEFT = UP"
| "rotate_dir RIGHT = DOWN"

definition clockwise :: "Dir \<Rightarrow> Dir" where
  "clockwise d = rotate_dir d"

fun counter_clockwise :: "Dir \<Rightarrow> Dir" where
  "counter_clockwise UP = LEFT"
| "counter_clockwise DOWN = RIGHT"
| "counter_clockwise LEFT = DOWN"
| "counter_clockwise RIGHT = UP"

section \<open>Python sequences\<close>

text \<open>
  Indexing a Python list or string with an integer \<open>i\<close>: an index from \<open>0\<close> to
  \<open>len - 1\<close> reads from the front, an index from \<open>-len\<close> to \<open>-1\<close> counts from the
  end, and any other index raises IndexError. Item assignment follows the same rule.
\<close>

definition py_getitem :: "'a list \<Rightarrow> int \<Rightarrow> error + 'a" where
  "py_getitem xs i =
     (let n = int (length xs)
      in if 0 \<le> i \<and> i < n then Inr (xs ! nat i)
         else if - n \<le> i \<and> i < 0 then Inr (xs ! nat (i + n))
         else Inl IndexError)"

definition py_setitem :: "'a list \<Rightarrow> int \<Rightarrow> 'a \<Rightarrow> error + 'a list" where
  "py_setitem xs i v =
     (let n = int (length xs)
      in if 0 \<le> i \<and> i < n then Inr (xs[nat i := v])
         else if - n \<le> i \<and> i < 0 then Inr (xs[nat (i + n) := v])
         else Inl IndexError)"

text \<open>
  Python has no character type: \<^verbatim>\<open>s[i]\<close> on a string is a string of length one,
  \<^verbatim>\<open>list(s)\<close> is the list of these one-character strings, and \<^verbatim>\<open>"".join(parts)\<close>
  concatenates strings.
\<close>

definition py_str_getitem :: "pystr \<Rightarrow> int \<Rightarrow> error + pystr" where
  "py_str_getitem s i = (case py_getitem s i of Inl e \<Rightarrow> Inl e | Inr ch \<Rightarrow> Inr [ch])"

definition py_list_of_str :: "pystr \<Rightarrow> pystr list" where
  "py_list_of_str s = map (\<lambda>ch. [ch]) s"

definition py_join :: "pystr list \<Rightarrow> pystr" where
  "py_join parts = concat parts"

definition py_range :: "int \<Rightarrow> int list" where
  "py_range n = map int [0..<nat n]"

section \<open>Grid helpers\<close>

text \<open>
  \<^verbatim>\<open>Grid = List[str]\<close> is a mutable list of immutable row strings, owned by the caller
  and passed by reference. Every function that receives the grid returns it next to
  its result: the grid as it is when the function returns or raises.
\<close>

type_synonym Grid = "pystr list"
type_synonym RowCol = "int \<times> int"

definition grid_rows :: "Grid \<Rightarrow> int" where
  "grid_rows grid = int (length grid)"

definition grid_cols :: "Grid \<Rightarrow> int" where
  "grid_cols grid = (case grid of [] \<Rightarrow> 0 | row0 # _ \<Rightarrow> int (length row0))"

text \<open>
  \<^verbatim>\<open>
  def grid_is_inbound(grid: Grid, rc: RowCol) -> bool:
      r, c = rc
      if not grid:
          return False
      max_r = len(grid) - 1
      max_c = len(grid[0]) - 1
      return 0 <= r <= max_r and 0 <= c <= max_c
  \<close>
\<close>

definition grid_is_inbound :: "Grid \<Rightarrow> RowCol \<Rightarrow> bool \<times> Grid" where
  "grid_is_inbound grid rc =
     (case rc of (r, c) \<Rightarrow>
        (case grid of
           [] \<Rightarrow> (False, grid)
         | row0 # _ \<Rightarrow>
             (let max_r = int (length grid) - 1;
                  max_c = int (length row0) - 1
              in (0 \<le> r \<and> r \<le> max_r \<and> 0 \<le> c \<and> c \<le> max_c, grid))))"

text \<open>
  \<^verbatim>\<open>
  def grid_get(grid: Grid, r: int, c: int) -> str:
      """... Raises IndexError if out of bounds."""
      return grid[r][c]
  \<close>
\<close>

definition grid_get :: "Grid \<Rightarrow> int \<Rightarrow> int \<Rightarrow> (error + pystr) \<times> Grid" where
  "grid_get grid r c =
     (case py_getitem grid r of
        Inl e \<Rightarrow> (Inl e, grid)
      | Inr row \<Rightarrow> (py_str_getitem row c, grid))"

text \<open>
  \<^verbatim>\<open>
  def grid_get_or_none(grid: Grid, rc: RowCol) -> Optional[str]:
      r, c = rc
      try:
          return grid[r][c]
      except IndexError:
          return None
  \<close>
  The handler catches IndexError only; any other exception would propagate.
\<close>

definition grid_get_or_none :: "Grid \<Rightarrow> RowCol \<Rightarrow> (error + pystr option) \<times> Grid" where
  "grid_get_or_none grid rc =
     (case rc of (r, c) \<Rightarrow>
        (case (case py_getitem grid r of
                 Inl e \<Rightarrow> Inl e
               | Inr row \<Rightarrow> py_str_getitem row c) of
           Inl IndexError \<Rightarrow> (Inr None, grid)
         | Inl e \<Rightarrow> (Inl e, grid)
         | Inr v \<Rightarrow> (Inr (Some v), grid)))"

text \<open>
  \<^verbatim>\<open>
  def grid_int(grid: Grid, r: int, c: int) -> Optional[int]:
      try:
          return int(grid[r][c])
      except (IndexError, ValueError):
          return None
  \<close>
\<close>

definition grid_int ::
  "unicode_db \<Rightarrow> Grid \<Rightarrow> int \<Rightarrow> int \<Rightarrow> (error + int option) \<times> Grid" where
  "grid_int db grid r c =
     (case (case (case py_getitem grid r of
                    Inl e \<Rightarrow> Inl e
                  | Inr row \<Rightarrow> py_str_getitem row c) of
              Inl e \<Rightarrow> Inl e
            | Inr cell \<Rightarrow> py_int db cell 10) of
        Inl IndexError \<Rightarrow> (Inr None, grid)
      | Inl ValueError \<Rightarrow> (Inr None, grid)
      | Inl e \<Rightarrow> (Inl e, grid)
      | Inr n \<Rightarrow> (Inr (Some n), grid))"

text \<open>
  \<^verbatim>\<open>
  def grid_set(grid: Grid, r: int, c: int, v: str) -> None:
      row_list = list(grid[r])
      row_list[c] = v
      grid[r] = "".join(row_list)
  \<close>
  The assignment to \<^verbatim>\<open>grid[r]\<close> is the last statement, so an exception leaves the grid
  as it was.
\<close>

definition grid_set :: "Grid \<Rightarrow> int \<Rightarrow> int \<Rightarrow> pystr \<Rightarrow> (error + unit) \<times> Grid" where
  "grid_set grid r c v =
     (case py_getitem grid r of
        Inl e \<Rightarrow> (Inl e, grid)
      | Inr row \<Rightarrow>
          (case py_setitem (py_list_of_str row) c v of
             Inl e \<Rightarrow> (Inl e, grid)
           | Inr row_list \<Rightarrow>
               (case py_setitem grid r (py_join row_list) of
                  Inl e \<Rightarrow> (Inl e, grid)
                | Inr grid' \<Rightarrow> (Inr (), grid'))))"

definition grid_set_rc :: "Grid \<Rightarrow> RowCol \<Rightarrow> pystr \<Rightarrow> (error + unit) \<times> Grid" where
  "grid_set_rc grid rc v = (case rc of (r, c) \<Rightarrow> grid_set grid r c v)"

text \<open>
  \<^verbatim>\<open>
  def grid_sequence(grid: Grid) -> Iterator[RowCol]:
      for r in range(grid_rows(grid)):
          for c in range(grid_cols(grid)):
              yield (r, c)
  \<close>
  The generator is modelled by the list of the coordinates it yields when it is
  consumed to the end.
\<close>

definition grid_sequence :: "Grid \<Rightarrow> RowCol list \<times> Grid" where
  "grid_sequence grid =
     (concat (map (\<lambda>r. map (\<lambda>c. (r, c)) (py_range (grid_cols grid)))
                  (py_range (grid_rows grid))),
      grid)"

text \<open>
  \<^verbatim>\<open>
  def grid_swap(grid: Grid, x: RowCol, y: RowCol) -> None:
      """... Swaps two cells if both are in bounds."""
      xv = grid_get_or_none(grid, x)
      yv = grid_get_or_none(grid, y)
      if xv is not None and yv is not None:
          grid_set_rc(grid, x, yv)
          grid_set_rc(grid, y, xv)
  \<close>
\<close>

definition grid_swap :: "Grid \<Rightarrow> RowCol \<Rightarrow> RowCol \<Rightarrow> (error + unit) \<times> Grid" where
  "grid_swap grid x y =
     (case grid_get_or_none grid x of
        (Inl e, g1) \<Rightarrow> (Inl e, g1)
      | (Inr xv, g1) \<Rightarrow>
          (case grid_get_or_none g1 y of
             (Inl e, g2) \<Rightarrow> (Inl e, g2)
           | (Inr yv, g2) \<Rightarrow>
               (case (xv, yv) of
                  (Some a, Some b) \<Rightarrow>
                    (case grid_set_rc g2 x b of
                       (Inl e, g3) \<Rightarrow> (Inl e, g3)
                     | (Inr _, g3) \<Rightarrow> grid_set_rc g3 y a)
                | _ \<Rightarrow> (Inr (), g2))))"

text \<open>
  The data model takes every row of a grid to have the length of the first row; the
  helpers do not check it.
\<close>

definition rectangular :: "Grid \<Rightarrow> bool" where
  "rectangular grid = list_all (\<lambda>row. int (length row) = grid_cols grid) grid"

section \<open>Vocabulary of the specification\<close>






section \<open>Permutations with repetition\<close>

text \<open>
  \<^verbatim>\<open>
  def permute(curr: List[T], max_length: int, result: List[List[T]], ops: Set[T]) -> None:
      if len(curr) == max_length:
          # Append a copy to avoid later mutation issues
          result.append(list(curr))
          return

      for op in ops:
          curr.append(op)
          permute(curr, max_length, result, ops)
          curr.pop()
  \<close>
  \<^verbatim>\<open>curr\<close> and the elements of \<^verbatim>\<open>result\<close> are mutable lists, passed and stored by
  reference, so the model keeps an object store: \<open>heap\<close> holds the contents of every
  list of elements, and the address of a list is its index in \<open>heap\<close>. \<open>result\<close> is
  the contents of the result list, a list of addresses. The scratch list \<^verbatim>\<open>curr\<close> is
  given by its address \<open>cur\<close>; \<^verbatim>\<open>list(curr)\<close> allocates a new list at the end of the
  store.

  \<^verbatim>\<open>ops\<close> is a set; the loop visits each element once, in the iteration order of the
  set, which is the list \<open>ops\<close> of the model. The first argument \<open>depth\<close> is the
  number of nested calls that the interpreter still allows: Python raises
  RecursionError when the recursion goes deeper. \<^verbatim>\<open>curr.pop()\<close> raises IndexError on
  an empty list.
\<close>

record 'a pstore =
  heap :: "'a list list"
  result :: "nat list"

fun permute :: "nat \<Rightarrow> nat \<Rightarrow> int \<Rightarrow> 'a pstore \<Rightarrow> 'a list \<Rightarrow> error + 'a pstore"
  and permute_loop ::
    "nat \<Rightarrow> 'a list \<Rightarrow> nat \<Rightarrow> int \<Rightarrow> 'a pstore \<Rightarrow> 'a list \<Rightarrow> error + 'a pstore"
where
  "permute 0 cur max_length st ops = Inl RecursionError"
| "permute (Suc depth) cur max_length st ops =
     (if int (length (heap st ! cur)) = max_length then
        Inr (st\<lparr>heap := heap st @ [heap st ! cur],
                result := result st @ [length (heap st)]\<rparr>)
      else permute_loop depth ops cur max_length st ops)"
| "permute_loop depth [] cur max_length st ops = Inr st"
| "permute_loop depth (op # rest) cur max_length st ops =
     (case permute depth cur max_length
             (st\<lparr>heap := (heap st)[cur := heap st ! cur @ [op]]\<rparr>) ops of
        Inl e \<Rightarrow> Inl e
      | Inr st' \<Rightarrow>
          (case heap st' ! cur of
             [] \<Rightarrow> Inl IndexError
           | _ # _ \<Rightarrow>
               permute_loop depth rest cur max_length
                 (st'\<lparr>heap := (heap st')[cur := butlast (heap st' ! cur)]\<rparr>) ops))"

text \<open>
  The sequences of length \<open>n\<close> over \<open>ops\<close>, in the order in which \<open>permute\<close>
  completes them, and the store after the lists \<open>news\<close> have been allocated and
  appended to the result. Both serve the proofs only.
\<close>

fun sequences_of :: "'a list \<Rightarrow> nat \<Rightarrow> 'a list list" where
  "sequences_of ops 0 = [[]]"
| "sequences_of ops (Suc n) =
     concat (map (\<lambda>op. map (\<lambda>s. op # s) (sequences_of ops n)) ops)"

definition extended :: "'a pstore \<Rightarrow> 'a list list \<Rightarrow> 'a pstore" where
  "extended st news =
     st\<lparr>heap := heap st @ news,
        result := result st @ [length (heap st)..<length (heap st) + length news]\<rparr>"

section \<open>Properties of the math helpers\<close>

lemma gcd_py_eq_gcd: "gcd_py a b = gcd a b"
proof (induction a b rule: gcd_py.induct)
  case (1 a b)
  show ?case
  proof (cases "b = 0")
    case True
    then show ?thesis by (simp add: gcd_py.simps)
  next
    case False
    have "gcd_py a b = gcd_py b (a mod b)"
      using False by (simp add: gcd_py.simps)
    also have "\<dots> = gcd b (a mod b)"
      using False by (rule "1.IH")
    also have "\<dots> = gcd a b"
      by (simp add: gcd.commute gcd_red_int [symmetric])
    finally show ?thesis .
  qed
qed

text \<open>
  Claim C5. For every integer value and every positive \<open>n\<close>, \<open>cap value n\<close> returns a
  number of the closed range from 1 to \<open>n\<close> (so never 0); \<open>cap n n\<close> is \<open>n\<close> and
  \<open>cap (n + 1) n\<close> is 1.
\<close>

theorem cap_range:
  assumes "0 < n"
  shows "(\<exists>k. cap v n = Inr k \<and> 1 \<le> k \<and> k \<le> n)
         \<and> cap n n = Inr n \<and> cap (n + 1) n = Inr 1"
proof -
  have nz: "n \<noteq> 0" using assms by simp
  have lo: "0 \<le> v mod n" and hi: "v mod n < n"
    using assms by simp_all
  have range: "\<exists>k. cap v n = Inr k \<and> 1 \<le> k \<and> k \<le> n"
  proof (cases "v mod n = 0")
    case True
    then show ?thesis using assms nz by (simp add: cap_def py_mod_def)
  next
    case False
    then have "1 \<le> v mod n" using lo by linarith
    then show ?thesis using False hi nz by (simp add: cap_def py_mod_def)
  qed
  have same: "cap n n = Inr n"
    using nz by (simp add: cap_def py_mod_def)
  have succ: "cap (n + 1) n = Inr 1"
  proof (cases "n = 1")
    case True
    then show ?thesis by (simp add: cap_def py_mod_def)
  next
    case False
    then have "1 < n" using assms by linarith
    then have "(n + 1) mod n = 1" by simp
    then show ?thesis using nz by (simp add: cap_def py_mod_def)
  qed
  from range same succ show ?thesis by blast
qed

theorem cap_range_witness:
  "(0::int) < 5 \<and> cap (-3) 5 = Inr 2 \<and> cap 10 5 = Inr 5 \<and> cap 5 5 = Inr 5
     \<and> cap (5 + 1) 5 = Inr 1"
proof -
  have h: "(0::int) < 5" by simp
  from cap_range [OF h, of "-3"] cap_range [OF h, of 10]
  show ?thesis by (simp add: cap_def py_mod_def)
qed

text \<open>
  Claim C8. For every direction, four applications of \<open>rotate\<close> give the direction
  back, \<open>rotate\<close> and \<open>counter_clockwise\<close> undo each other, and \<open>rotate\<close> follows
  the clockwise cycle UP, RIGHT, DOWN, LEFT, UP.
\<close>

theorem rotate_cycle:
  "rotate_dir (rotate_dir (rotate_dir (rotate_dir d))) = d
   \<and> counter_clockwise (rotate_dir d) = d
   \<and> rotate_dir (counter_clockwise d) = d
   \<and> rotate_dir UP = RIGHT \<and> rotate_dir RIGHT = DOWN
   \<and> rotate_dir DOWN = LEFT \<and> rotate_dir LEFT = UP"
  by (cases d) simp_all

text \<open>
  Claim C9. For all integers \<open>a\<close> and \<open>b\<close>: \<open>gcd a b\<close> equals \<open>gcd b a\<close>, \<open>gcd a 0\<close>
  is the absolute value of \<open>a\<close>, the result of \<open>gcd\<close> is never negative, and for
  nonzero \<open>a\<close> and \<open>b\<close> the call \<open>lcm a b\<close> returns a number whose product with
  \<open>gcd a b\<close> is the absolute value of \<open>a * b\<close>.
\<close>

theorem gcd_lcm_laws:
  "gcd_py a b = gcd_py b a
   \<and> gcd_py a 0 = \<bar>a\<bar>
   \<and> 0 \<le> gcd_py a b
   \<and> (a \<noteq> 0 \<and> b \<noteq> 0 \<longrightarrow>
        (\<exists>l. lcm_py a b = Inr l \<and> l * gcd_py a b = \<bar>a * b\<bar>))"
proof -
  have comm: "gcd_py a b = gcd_py b a"
    by (simp add: gcd_py_eq_gcd gcd.commute)
  have zero: "gcd_py a 0 = \<bar>a\<bar>"
    by (simp add: gcd_py.simps)
  have nonneg: "0 \<le> gcd_py a b"
    by (simp add: gcd_py_eq_gcd)
  have prod: "\<exists>l. lcm_py a b = Inr l \<and> l * gcd_py a b = \<bar>a * b\<bar>"
    if "a \<noteq> 0" "b \<noteq> 0"
  proof -
    have g: "gcd a b \<noteq> 0" using that by simp
    have "gcd a b dvd a * b" by simp
    then have "gcd a b dvd \<bar>a * b\<bar>" by simp
    then have "\<bar>a * b\<bar> div gcd a b * gcd a b = \<bar>a * b\<bar>"
      by (rule dvd_div_mult_self)
    then show ?thesis
      using g by (simp add: lcm_py_def py_floordiv_def gcd_py_eq_gcd)
  qed
  from comm zero nonneg prod show ?thesis by blast
qed

theorem gcd_lcm_laws_witness:
  "gcd_py (-12) 18 = gcd_py 18 (-12) \<and> gcd_py (-12) 0 = 12 \<and> gcd_py (-12) 18 = 6
   \<and> lcm_py (-12) 18 = Inr 36 \<and> 36 * gcd_py (-12) 18 = \<bar>(-12) * 18 :: int\<bar>"
proof -
  have g: "gcd_py (-12) 18 = 6" by (simp add: gcd_py.simps)
  from gcd_lcm_laws [of "-12" 18] g show ?thesis
    by (simp add: lcm_py_def py_floordiv_def)
qed

section \<open>Properties of the grid helpers\<close>

lemma py_getitem_inrange:
  "0 \<le> i \<Longrightarrow> i < int (length xs) \<Longrightarrow> py_getitem xs i = Inr (xs ! nat i)"
  by (simp add: py_getitem_def)

lemma py_getitem_outside:
  "int (length xs) \<le> i \<or> i < - int (length xs) \<Longrightarrow> py_getitem xs i = Inl IndexError"
  by (auto simp: py_getitem_def Let_def)

lemma py_setitem_inrange:
  "0 \<le> i \<Longrightarrow> i < int (length xs) \<Longrightarrow> py_setitem xs i v = Inr (xs[nat i := v])"
  by (simp add: py_setitem_def)

lemma grid_is_inbound_iff:
  "fst (grid_is_inbound grid (r, c)) \<longleftrightarrow>
     0 \<le> r \<and> r < grid_rows grid \<and> 0 \<le> c \<and> c < grid_cols grid"
  by (cases grid) (auto simp: grid_is_inbound_def grid_rows_def grid_cols_def Let_def)

lemma rectangular_row:
  "rectangular grid \<Longrightarrow> i < length grid \<Longrightarrow> int (length (grid ! i)) = grid_cols grid"
  by (simp add: rectangular_def list_all_length)

lemma join_list_of_str_update:
  "py_join ((py_list_of_str row)[j := [x]]) = row[j := x]"
proof -
  have "(py_list_of_str row)[j := [x]] = py_list_of_str (row[j := x])"
    by (simp add: py_list_of_str_def map_update)
  moreover have "py_join (py_list_of_str s) = s" for s :: pystr
    by (induction s) (simp_all add: py_join_def py_list_of_str_def)
  ultimately show ?thesis by simp
qed

lemma grid_get_inbound:
  assumes "rectangular grid" and "fst (grid_is_inbound grid (r, c))"
  shows "grid_get grid r c = (Inr [grid ! nat r ! nat c], grid)"
proof -
  from assms(2) have r: "0 \<le> r" "r < int (length grid)" and c: "0 \<le> c" "c < grid_cols grid"
    by (simp_all add: grid_is_inbound_iff grid_rows_def)
  from r have "nat r < length grid" by simp
  with assms(1) c have "c < int (length (grid ! nat r))" by (simp add: rectangular_row)
  with r c show ?thesis
    by (simp add: grid_get_def py_str_getitem_def py_getitem_inrange)
qed

lemma grid_get_or_none_inbound:
  assumes "rectangular grid" and "fst (grid_is_inbound grid (r, c))"
  shows "grid_get_or_none grid (r, c) = (Inr (Some [grid ! nat r ! nat c]), grid)"
proof -
  from assms(2) have r: "0 \<le> r" "r < int (length grid)" and c: "0 \<le> c" "c < grid_cols grid"
    by (simp_all add: grid_is_inbound_iff grid_rows_def)
  from r have "nat r < length grid" by simp
  with assms(1) c have "c < int (length (grid ! nat r))" by (simp add: rectangular_row)
  with r c show ?thesis
    by (simp add: grid_get_or_none_def py_str_getitem_def py_getitem_inrange)
qed

lemma grid_set_inbound:
  assumes "rectangular grid" and "fst (grid_is_inbound grid (r, c))"
  shows "grid_set grid r c [x] = (Inr (), grid[nat r := (grid ! nat r)[nat c := x]])"
proof -
  from assms(2) have r: "0 \<le> r" "r < int (length grid)" and c: "0 \<le> c" "c < grid_cols grid"
    by (simp_all add: grid_is_inbound_iff grid_rows_def)
  from r have "nat r < length grid" by simp
  with assms(1) c have "c < int (length (py_list_of_str (grid ! nat r)))"
    by (simp add: rectangular_row py_list_of_str_def)
  with r c show ?thesis
    by (simp add: grid_set_def py_getitem_inrange py_setitem_inrange join_list_of_str_update)
qed

lemma grid_get_or_none_beyond:
  assumes "rectangular grid"
    and "r < - grid_rows grid \<or> grid_rows grid \<le> r \<or> c < - grid_cols grid \<or> grid_cols grid \<le> c"
  shows "grid_get_or_none grid (r, c) = (Inr None, grid)"
proof (cases "r < - grid_rows grid \<or> grid_rows grid \<le> r")
  case True
  then have "py_getitem grid r = Inl IndexError"
    by (auto simp: py_getitem_def Let_def grid_rows_def)
  then show ?thesis
    by (simp add: grid_get_or_none_def)
next
  case False
  define i where "i = (if 0 \<le> r then nat r else nat (r + int (length grid)))"
  from False have i: "i < length grid" "py_getitem grid r = Inr (grid ! i)"
    by (auto simp: i_def py_getitem_def Let_def grid_rows_def)
  from assms(1) i(1) have len: "int (length (grid ! i)) = grid_cols grid"
    by (rule rectangular_row)
  from assms(2) False have "c < - grid_cols grid \<or> grid_cols grid \<le> c"
    by blast
  then have "py_getitem (grid ! i) c = Inl IndexError"
    unfolding len [symmetric] by (rule py_getitem_outside [OF disj_commute [THEN iffD1]])
  then show ?thesis
    by (simp add: grid_get_or_none_def py_str_getitem_def i(2))
qed

lemma grid_swap_inbound:
  assumes "rectangular grid"
    and "fst (grid_is_inbound grid (r1, c1))" and "fst (grid_is_inbound grid (r2, c2))"
  shows "\<exists>grid'. grid_swap grid (r1, c1) (r2, c2) = (Inr (), grid')
           \<and> length grid' = length grid
           \<and> grid' ! nat r1 ! nat c1 = grid ! nat r2 ! nat c2
           \<and> grid' ! nat r2 ! nat c2 = grid ! nat r1 ! nat c1
           \<and> (\<forall>i < length grid. \<forall>j < length (grid ! i).
                 (int i, int j) \<noteq> (r1, c1) \<and> (int i, int j) \<noteq> (r2, c2) \<longrightarrow>
                 grid' ! i ! j = grid ! i ! j)"
proof -
  let ?a = "grid ! nat r1 ! nat c1" and ?b = "grid ! nat r2 ! nat c2"
  let ?g1 = "grid[nat r1 := (grid ! nat r1)[nat c1 := ?b]]"
  let ?g2 = "?g1[nat r2 := (?g1 ! nat r2)[nat c2 := ?a]]"
  from assms(2) have b1: "0 \<le> r1" "nat r1 < length grid" "0 \<le> c1" "c1 < grid_cols grid"
    by (auto simp: grid_is_inbound_iff grid_rows_def)
  from assms(3) have b2: "0 \<le> r2" "nat r2 < length grid" "0 \<le> c2" "c2 < grid_cols grid"
    by (auto simp: grid_is_inbound_iff grid_rows_def)
  have l1: "nat c1 < length (grid ! nat r1)" and l2: "nat c2 < length (grid ! nat r2)"
    using rectangular_row [OF assms(1) b1(2)] rectangular_row [OF assms(1) b2(2)] b1 b2
    by simp_all
  have cols1: "grid_cols ?g1 = grid_cols grid"
    by (cases grid; cases "nat r1") (simp_all add: grid_cols_def)
  have rect1: "rectangular ?g1"
    unfolding rectangular_def cols1 list_all_length
  proof (intro allI impI)
    fix n
    assume "n < length ?g1"
    then have n: "n < length grid" by simp
    show "int (length (?g1 ! n)) = grid_cols grid"
      using rectangular_row [OF assms(1) n] b1(2) by (cases "n = nat r1") simp_all
  qed
  have inb1: "fst (grid_is_inbound ?g1 (r2, c2))"
    using assms(3) by (simp add: grid_is_inbound_iff cols1 grid_rows_def)
  have s1: "grid_set grid r1 c1 [?b] = (Inr (), ?g1)"
    using assms(1,2) by (rule grid_set_inbound)
  have s2: "grid_set ?g1 r2 c2 [?a] = (Inr (), ?g2)"
    using rect1 inb1 by (rule grid_set_inbound)
  have run: "grid_swap grid (r1, c1) (r2, c2) = (Inr (), ?g2)"
    by (simp add: grid_swap_def grid_set_rc_def s1 s2
        grid_get_or_none_inbound [OF assms(1,2)] grid_get_or_none_inbound [OF assms(1,3)])
  have len: "length ?g2 = length grid"
    by simp
  have y: "?g2 ! nat r2 ! nat c2 = ?a"
    using b1(2) b2(2) l1 l2 by (cases "nat r1 = nat r2") simp_all
  have x: "?g2 ! nat r1 ! nat c1 = ?b"
    using b1 b2 l1 l2 by (auto simp: nth_list_update)
  have others: "?g2 ! i ! j = grid ! i ! j"
    if "i < length grid" "j < length (grid ! i)"
      "(int i, int j) \<noteq> (r1, c1)" "(int i, int j) \<noteq> (r2, c2)" for i j
    using that b1 b2 by (auto simp: nth_list_update)
  from run len x y others show ?thesis by blast
qed

text \<open>
  Claim C1. \<open>grid_get_or_none\<close> agrees with \<open>grid_get\<close> on every coordinate that is
  in bounds (\<open>grid_get_inbound\<close> and \<open>grid_get_or_none_inbound\<close> above) and
  returns \<open>None\<close> when an index lies outside the range from \<open>-len\<close> to
  \<open>len - 1\<close> (\<open>grid_get_or_none_beyond\<close> above), but it does not return \<open>None\<close>
  for every coordinate out of bounds: a negative index counts from the end. On the grid of rows \<open>ab\<close> and \<open>cd\<close> the coordinate \<open>(-1, 0)\<close> is out of
  bounds, and the function returns the cell \<open>c\<close> of the last row.
\<close>

theorem grid_get_or_none_negative_index:
  "fst (grid_is_inbound [str ''ab'', str ''cd''] (- 1, 0)) = False
   \<and> fst (grid_get_or_none [str ''ab'', str ''cd''] (- 1, 0)) = Inr (Some (str ''c''))"
  by (simp add: str_def grid_is_inbound_def grid_get_or_none_def py_getitem_def
      py_str_getitem_def)

text \<open>
  Claim C3. \<open>grid_get\<close> returns the cell of every coordinate that is in bounds
  (\<open>grid_get_inbound\<close> above), but it does not fail on every invalid coordinate: on
  the grid of rows \<open>ab\<close> and \<open>cd\<close> the call with row \<open>-1\<close> and column \<open>0\<close> returns the
  cell \<open>c\<close> of the last row and raises nothing.
\<close>

theorem grid_get_negative_index:
  "fst (grid_is_inbound [str ''ab'', str ''cd''] (- 1, 0)) = False
   \<and> fst (grid_get [str ''ab'', str ''cd''] (- 1) 0) = Inr (str ''c'')"
  by (simp add: str_def grid_is_inbound_def grid_get_def py_getitem_def py_str_getitem_def)

text \<open>
  Claim C2. \<open>grid_swap\<close> exchanges the two cells when both coordinates are in
  bounds (\<open>grid_swap_inbound\<close> above), but it does not leave the grid unchanged
  whenever a coordinate is out of bounds: on the grid of rows \<open>ab\<close> and \<open>cd\<close>, swapping \<open>(-1, 0)\<close>, which is
  out of bounds, and \<open>(0, 0)\<close> exchanges the cells \<open>c\<close> and \<open>a\<close>.
\<close>

theorem grid_swap_negative_index:
  "fst (grid_is_inbound [str ''ab'', str ''cd''] (- 1, 0)) = False
   \<and> grid_swap [str ''ab'', str ''cd''] (- 1, 0) (0, 0) = (Inr (), [str ''cb'', str ''ad''])"
  by (simp add: str_def grid_is_inbound_def grid_swap_def grid_set_rc_def grid_set_def
      grid_get_or_none_def py_getitem_def py_str_getitem_def py_setitem_def
      py_list_of_str_def py_join_def)

lemma grid_sequence_product:
  "fst (grid_sequence grid) = List.product (py_range (grid_rows grid)) (py_range (grid_cols grid))"
  by (simp add: grid_sequence_def product_concat_map)

text \<open>
  Claim C7. For every grid, \<open>grid_sequence\<close> yields exactly \<open>rows * cols\<close>
  coordinates, all distinct, in row-major order: the coordinate at position \<open>k\<close> is
  row \<open>k div cols\<close>, column \<open>k mod cols\<close>.
\<close>

theorem grid_sequence_row_major:
  "length (fst (grid_sequence grid)) = nat (grid_rows grid * grid_cols grid)
   \<and> distinct (fst (grid_sequence grid))
   \<and> (\<forall>k < length (fst (grid_sequence grid)).
        fst (grid_sequence grid) ! k =
          (int (k div nat (grid_cols grid)), int (k mod nat (grid_cols grid))))"
proof -
  let ?rs = "py_range (grid_rows grid)" and ?cs = "py_range (grid_cols grid)"
  have len_rs: "length ?rs = nat (grid_rows grid)" and len_cs: "length ?cs = nat (grid_cols grid)"
    by (simp_all add: py_range_def)
  have nonneg: "0 \<le> grid_rows grid" "0 \<le> grid_cols grid"
    by (simp_all add: grid_rows_def grid_cols_def split: list.split)
  have len: "length (fst (grid_sequence grid)) = nat (grid_rows grid * grid_cols grid)"
    using nonneg by (simp add: grid_sequence_product len_rs len_cs nat_mult_distrib)
  have dist: "distinct (fst (grid_sequence grid))"
    unfolding grid_sequence_product
    by (rule distinct_product) (simp_all add: py_range_def distinct_map inj_on_def)
  have nth: "fst (grid_sequence grid) ! k =
      (int (k div nat (grid_cols grid)), int (k mod nat (grid_cols grid)))"
    if "k < length (fst (grid_sequence grid))" for k
  proof -
    from that have k: "k < length ?rs * length ?cs"
      by (simp add: grid_sequence_product)
    then have pos: "0 < nat (grid_cols grid)"
      using len_cs by (cases "nat (grid_cols grid)") simp_all
    have kd: "k div nat (grid_cols grid) < nat (grid_rows grid)"
      using k pos len_rs len_cs by (simp add: less_mult_imp_div_less)
    have km: "k mod nat (grid_cols grid) < nat (grid_cols grid)"
      using pos by simp
    have "List.product ?rs ?cs ! k = (?rs ! (k div length ?cs), ?cs ! (k mod length ?cs))"
      using k by (rule product_nth)
    then show ?thesis
      using kd km by (simp add: grid_sequence_product len_cs py_range_def)
  qed
  from len dist nth show ?thesis by blast
qed

lemma grid_get_keeps_grid: "snd (grid_get grid r c) = grid"
  by (simp add: grid_get_def split: sum.split)

lemma grid_get_or_none_keeps_grid: "snd (grid_get_or_none grid rc) = grid"
  by (simp add: grid_get_or_none_def split: prod.split sum.split error.split)

lemma grid_int_keeps_grid: "snd (grid_int db grid r c) = grid"
  by (simp add: grid_int_def split: sum.split error.split)

lemma grid_is_inbound_keeps_grid: "snd (grid_is_inbound grid rc) = grid"
  by (simp add: grid_is_inbound_def Let_def split: prod.split list.split)

lemma grid_sequence_keeps_grid: "snd (grid_sequence grid) = grid"
  by (simp add: grid_sequence_def)

text \<open>
  Claim C10. For every grid, every coordinate \<open>(r, c)\<close> in bounds and every
  one-character value \<open>v\<close>, \<open>grid_set\<close> returns without error, keeps the number of
  rows, leaves every row other than \<open>r\<close> unchanged, keeps the length of row \<open>r\<close>,
  changes no cell of row \<open>r\<close> other than column \<open>c\<close>, and stores \<open>v\<close> at \<open>(r, c)\<close>.
  The accessors \<open>grid_get\<close>, \<open>grid_get_or_none\<close>, \<open>grid_int\<close>,
  \<open>grid_is_inbound\<close> and \<open>grid_sequence\<close> return the grid as they received it.
\<close>

theorem grid_set_frame:
  "(rectangular grid \<and> fst (grid_is_inbound grid (r, c)) \<and> length v = 1 \<longrightarrow>
      (\<exists>grid'. grid_set grid r c v = (Inr (), grid')
         \<and> length grid' = length grid
         \<and> (\<forall>i < length grid. i \<noteq> nat r \<longrightarrow> grid' ! i = grid ! i)
         \<and> length (grid' ! nat r) = length (grid ! nat r)
         \<and> (\<forall>j < length (grid ! nat r). j \<noteq> nat c \<longrightarrow> grid' ! nat r ! j = grid ! nat r ! j)
         \<and> [grid' ! nat r ! nat c] = v))
   \<and> snd (grid_get grid r' c') = grid
   \<and> snd (grid_get_or_none grid rc) = grid
   \<and> snd (grid_int db grid r' c') = grid
   \<and> snd (grid_is_inbound grid rc) = grid
   \<and> snd (grid_sequence grid) = grid"
proof -
  have set_part: "\<exists>grid'. grid_set grid r c v = (Inr (), grid')
         \<and> length grid' = length grid
         \<and> (\<forall>i < length grid. i \<noteq> nat r \<longrightarrow> grid' ! i = grid ! i)
         \<and> length (grid' ! nat r) = length (grid ! nat r)
         \<and> (\<forall>j < length (grid ! nat r). j \<noteq> nat c \<longrightarrow> grid' ! nat r ! j = grid ! nat r ! j)
         \<and> [grid' ! nat r ! nat c] = v"
    if rect: "rectangular grid" and inb: "fst (grid_is_inbound grid (r, c))" and v: "length v = 1"
  proof -
    from v obtain x where x: "v = [x]"
      by (cases v) simp_all
    let ?g = "grid[nat r := (grid ! nat r)[nat c := x]]"
    from inb have r: "nat r < length grid" and c: "0 \<le> c" "c < grid_cols grid"
      by (auto simp: grid_is_inbound_iff grid_rows_def)
    from rect r c have c': "nat c < length (grid ! nat r)"
      using rectangular_row [of grid "nat r"] by simp
    have "grid_set grid r c v = (Inr (), ?g)"
      unfolding x using rect inb by (rule grid_set_inbound)
    moreover have "length ?g = length grid" by simp
    moreover have "\<forall>i < length grid. i \<noteq> nat r \<longrightarrow> ?g ! i = grid ! i" by simp
    moreover have "length (?g ! nat r) = length (grid ! nat r)" using r by simp
    moreover have "\<forall>j < length (grid ! nat r). j \<noteq> nat c \<longrightarrow> ?g ! nat r ! j = grid ! nat r ! j"
      using r by simp
    moreover have "[?g ! nat r ! nat c] = v" using r c' x by simp
    ultimately show ?thesis by blast
  qed
  from set_part grid_get_keeps_grid grid_get_or_none_keeps_grid grid_int_keeps_grid
    grid_is_inbound_keeps_grid grid_sequence_keeps_grid
  show ?thesis by blast
qed

theorem grid_set_frame_witness:
  "rectangular [str ''ab'', str ''cd''] \<and> fst (grid_is_inbound [str ''ab'', str ''cd''] (1, 0))
   \<and> length (str ''x'') = 1
   \<and> grid_set [str ''ab'', str ''cd''] 1 0 (str ''x'') = (Inr (), [str ''ab'', str ''xd''])
   \<and> snd (grid_get [str ''ab'', str ''cd''] 0 1) = [str ''ab'', str ''cd'']"
proof -
  have h: "rectangular [str ''ab'', str ''cd''] \<and> fst (grid_is_inbound [str ''ab'', str ''cd''] (1, 0))
      \<and> length (str ''x'') = 1"
    by (simp add: str_def rectangular_def grid_cols_def grid_is_inbound_def)
  have e: "grid_set [str ''ab'', str ''cd''] 1 0 (str ''x'') = (Inr (), [str ''ab'', str ''xd''])"
    by (simp add: str_def grid_set_def py_getitem_def py_setitem_def py_list_of_str_def
        py_join_def)
  from grid_set_frame [of "[str ''ab'', str ''cd'']" 1 0 "str ''x''" 0 1] h e show ?thesis
    by blast
qed

theorem grid_sequence_row_major_witness:
  "length (fst (grid_sequence [str ''ab'', str ''cd'', str ''ef''])) = 6
   \<and> distinct (fst (grid_sequence [str ''ab'', str ''cd'', str ''ef'']))
   \<and> fst (grid_sequence [str ''ab'', str ''cd'', str ''ef'']) ! 3 = (1, 1)"
proof -
  let ?g = "[str ''ab'', str ''cd'', str ''ef'']"
  have rc: "grid_rows ?g = 3" "grid_cols ?g = 2"
    by (simp_all add: str_def grid_rows_def grid_cols_def)
  note t = grid_sequence_row_major [of ?g]
  from t have len: "length (fst (grid_sequence ?g)) = 6"
    by (simp add: rc)
  from t have dist: "distinct (fst (grid_sequence ?g))"
    by blast
  from t have "\<forall>k < length (fst (grid_sequence ?g)).
      fst (grid_sequence ?g) ! k = (int (k div nat (grid_cols ?g)), int (k mod nat (grid_cols ?g)))"
    by blast
  then have "(3::nat) < length (fst (grid_sequence ?g)) \<longrightarrow>
      fst (grid_sequence ?g) ! 3 = (int (3 div nat (grid_cols ?g)), int (3 mod nat (grid_cols ?g)))"
    by blast
  with len have "fst (grid_sequence ?g) ! 3 = (1, 1)"
    by (simp add: rc)
  with len dist show ?thesis by blast
qed

section \<open>Properties of hex_to_binary\<close>
















section \<open>Properties of permute\<close>

lemma length_concat_map_const:
  "length (concat (map (\<lambda>x. map (f x) ys) xs)) = length xs * length ys"
  by (induction xs) simp_all

lemma length_sequences_of: "length (sequences_of ops n) = length ops ^ n"
  by (induction n) (simp_all add: length_concat_map_const)

lemma extended_Nil: "extended st [] = st"
  by (simp add: extended_def)

lemma upt_split: "[n..<n + (a + b)] = [n..<n + a] @ [n + a..<n + a + b]"
proof -
  have "[n..<(n + a) + b] = [n..<n + a] @ [n + a..<(n + a) + b]"
    by (rule upt_add_eq_append) simp
  then show ?thesis by (simp only: add.assoc)
qed

lemma extended_extended: "extended (extended st a) b = extended st (a @ b)"
  by (simp add: extended_def upt_split)

lemma set_sequences_of:
  "set (sequences_of ops n) = {s. length s = n \<and> set s \<subseteq> set ops}"
proof (induction n)
  case 0
  then show ?case by auto
next
  case (Suc n)
  show ?case
  proof (rule set_eqI)
    fix s
    show "s \<in> set (sequences_of ops (Suc n)) \<longleftrightarrow>
        s \<in> {s. length s = Suc n \<and> set s \<subseteq> set ops}"
    proof (cases s)
      case Nil
      then show ?thesis by auto
    next
      case (Cons x t)
      then show ?thesis using Suc by auto
    qed
  qed
qed

lemma distinct_sequences_of:
  assumes "distinct ops"
  shows "distinct (sequences_of ops n)"
proof (induction n)
  case 0
  show ?case by simp
next
  case (Suc n)
  have "distinct (concat (map (\<lambda>op. map (\<lambda>s. op # s) (sequences_of ops n)) xs))"
    if "distinct xs" for xs
    using that
  proof (induction xs)
    case Nil
    show ?case by simp
  next
    case (Cons x xs)
    then show ?case
      using Suc by (auto simp: distinct_map inj_on_def)
  qed
  with assms show ?case by simp
qed

lemma push_pop:
  assumes cur: "cur < length (heap st)"
    and st1: "st1 = st\<lparr>heap := (heap st)[cur := heap st ! cur @ [x]]\<rparr>"
    and st2: "st2 = extended st1 news"
  shows "heap st2 ! cur = heap st ! cur @ [x]"
    and "st2\<lparr>heap := (heap st2)[cur := butlast (heap st2 ! cur)]\<rparr> = extended st news"
proof -
  have h2: "heap st2 = (heap st)[cur := heap st ! cur @ [x]] @ news"
    by (simp add: st1 st2 extended_def)
  show top: "heap st2 ! cur = heap st ! cur @ [x]"
    using cur by (simp add: h2 nth_append)
  have "(heap st2)[cur := heap st ! cur] = heap st @ news"
    using cur by (simp add: h2 list_update_append1)
  then have popped: "(heap st2)[cur := butlast (heap st2 ! cur)] = heap st @ news"
    by (simp only: top butlast_snoc)
  have "st2\<lparr>heap := H\<rparr> = extended st news" if "H = heap st @ news" for H
    using that by (simp add: st1 st2 extended_def)
  from this [OF popped]
  show "st2\<lparr>heap := (heap st2)[cur := butlast (heap st2 ! cur)]\<rparr> = extended st news" .
qed

lemma permute_loop_step:
  assumes call: "permute depth cur ml (st\<lparr>heap := (heap st)[cur := heap st ! cur @ [x]]\<rparr>) ops
      = Inr st2"
    and top: "heap st2 ! cur = q @ [x]"
    and pop: "st2\<lparr>heap := (heap st2)[cur := butlast (heap st2 ! cur)]\<rparr> = st3"
  shows "permute_loop depth (x # rest) cur ml st ops = permute_loop depth rest cur ml st3 ops"
proof -
  have ne: "heap st2 ! cur \<noteq> []"
    using top by simp
  show ?thesis
    by (simp only: permute_loop.simps call sum.case list.case_eq_if ne if_False pop)
qed

lemma sequences_of_Suc_prefix:
  "concat (map (\<lambda>x. map (\<lambda>s. p @ x # s) (sequences_of ops k)) ops)
     = map (\<lambda>s. p @ s) (sequences_of ops (Suc k))"
  by (simp add: map_concat comp_def)

lemma permute_from_prefix:
  assumes "cur < length (heap st)" and "length (heap st ! cur) + k = n" and "k < depth"
  shows "permute depth cur (int n) st ops
     = Inr (extended st (map (\<lambda>s. heap st ! cur @ s) (sequences_of ops k)))"
  using assms
proof (induction k arbitrary: st depth)
  case 0
  then obtain d where "depth = Suc d"
    by (cases depth) auto
  with 0 show ?case
    by (simp add: extended_def)
next
  case (Suc k)
  from Suc.prems(3) obtain d where d: "depth = Suc d" "k < d"
    by (cases depth) auto
  let ?p = "heap st ! cur"
  have loop: "permute_loop d xs cur (int n) st' ops
      = Inr (extended st' (concat (map (\<lambda>x. map (\<lambda>s. ?p @ x # s) (sequences_of ops k)) xs)))"
    if "cur < length (heap st')" and "heap st' ! cur = ?p" for xs st'
    using that
  proof (induction xs arbitrary: st')
    case Nil
    show ?case by (simp add: extended_Nil)
  next
    case (Cons x xs)
    define st1 where "st1 = st'\<lparr>heap := (heap st')[cur := heap st' ! cur @ [x]]\<rparr>"
    define news where "news = map (\<lambda>s. ?p @ x # s) (sequences_of ops k)"
    define st2 where "st2 = extended st1 news"
    have c1: "cur < length (heap st1)" and p1: "heap st1 ! cur = ?p @ [x]"
      using Cons.prems by (simp_all add: st1_def)
    have len1: "length (heap st1 ! cur) + k = n"
      using Suc.prems(2) by (simp add: p1)
    have call: "permute d cur (int n) st1 ops = Inr st2"
      using Suc.IH [OF c1 len1 d(2)] by (simp add: st2_def news_def p1)
    note pp = push_pop [OF Cons.prems(1) st1_def st2_def]
    have step: "permute_loop d (x # xs) cur (int n) st' ops
        = permute_loop d xs cur (int n) (extended st' news) ops"
      using call pp(1) pp(2) unfolding st1_def by (rule permute_loop_step)
    have c3: "cur < length (heap (extended st' news))"
      and p3: "heap (extended st' news) ! cur = ?p"
      using Cons.prems by (simp_all add: extended_def nth_append)
    note step
    also have "permute_loop d xs cur (int n) (extended st' news) ops
        = Inr (extended (extended st' news)
            (concat (map (\<lambda>x. map (\<lambda>s. ?p @ x # s) (sequences_of ops k)) xs)))"
      using c3 p3 by (rule Cons.IH)
    also have "\<dots> = Inr (extended st'
        (concat (map (\<lambda>x. map (\<lambda>s. ?p @ x # s) (sequences_of ops k)) (x # xs))))"
      by (simp add: extended_extended news_def)
    finally show ?case .
  qed
  have "permute depth cur (int n) st ops = permute_loop d ops cur (int n) st ops"
    using Suc.prems(2) by (simp add: d(1))
  also have "\<dots> = Inr (extended st
      (concat (map (\<lambda>x. map (\<lambda>s. ?p @ x # s) (sequences_of ops k)) ops)))"
    using Suc.prems(1) by (rule loop) simp
  finally show ?case
    by (simp only: sequences_of_Suc_prefix)
qed

lemma map_nth_appended:
  "map (\<lambda>a. (xs @ ys) ! a) [length xs..<length xs + length ys] = ys"
  by (rule nth_equalityI) (simp_all add: nth_append)

text \<open>
  Claim C6. For every alphabet, given by the list \<open>ops\<close> of its distinct elements,
  and every \<open>max_length\<close> that is not negative, a call of \<open>permute\<close> with an empty
  scratch list and enough recursion depth returns without error. Afterwards the scratch
  list is empty again and no list that existed before has changed; the result list has
  grown by exactly \<open>card (set ops) ^ max_length\<close> references, all distinct and all
  to lists allocated by the call (independent copies), each of length \<open>max_length\<close>;
  these lists are exactly the sequences of length \<open>max_length\<close> over the alphabet,
  each once.
\<close>

theorem permute_all_sequences:
  assumes "distinct ops"
    and "0 \<le> max_length"
    and "cur < length (heap st)"
    and "heap st ! cur = []"
    and "nat max_length < depth"
  shows "\<exists>st'. permute depth cur max_length st ops = Inr st'
      \<and> heap st' ! cur = []
      \<and> take (length (heap st)) (heap st') = heap st
      \<and> (\<exists>refs. result st' = result st @ refs
            \<and> length refs = card (set ops) ^ nat max_length
            \<and> distinct refs
            \<and> (\<forall>a \<in> set refs. length (heap st) \<le> a \<and> a < length (heap st')
                  \<and> length (heap st' ! a) = nat max_length)
            \<and> (\<lambda>a. heap st' ! a) ` set refs
                  = {s. length s = nat max_length \<and> set s \<subseteq> set ops}
            \<and> distinct (map (\<lambda>a. heap st' ! a) refs))"
proof -
  define n where "n = nat max_length"
  define news where "news = sequences_of ops n"
  define refs where "refs = [length (heap st)..<length (heap st) + length news]"
  define st' where "st' = extended st news"
  have ml: "max_length = int n"
    using assms(2) by (simp add: n_def)
  have "length (heap st ! cur) + n = n"
    by (simp add: assms(4))
  with assms(3) have "permute depth cur (int n) st ops
      = Inr (extended st (map (\<lambda>s. heap st ! cur @ s) (sequences_of ops n)))"
    using assms(5) unfolding n_def by (rule permute_from_prefix)
  then have run: "permute depth cur max_length st ops = Inr st'"
    by (simp add: ml assms(4) st'_def news_def)
  have heap': "heap st' = heap st @ news" and res: "result st' = result st @ refs"
    by (simp_all add: st'_def extended_def refs_def)
  have cur: "heap st' ! cur = []"
    using assms(3,4) by (simp add: heap' nth_append)
  have old: "take (length (heap st)) (heap st') = heap st"
    by (simp add: heap')
  have deref: "map (\<lambda>a. heap st' ! a) refs = news"
    unfolding heap' refs_def by (rule map_nth_appended)
  have len: "length refs = card (set ops) ^ nat max_length"
    using assms(1) by (simp add: refs_def news_def length_sequences_of distinct_card n_def)
  have dist: "distinct refs"
    by (simp add: refs_def)
  have all: "set news = {s. length s = nat max_length \<and> set s \<subseteq> set ops}"
    by (simp add: news_def set_sequences_of n_def)
  have img: "(\<lambda>a. heap st' ! a) ` set refs = {s. length s = nat max_length \<and> set s \<subseteq> set ops}"
    using deref all by (metis set_map)
  have fresh: "length (heap st) \<le> a \<and> a < length (heap st')
      \<and> length (heap st' ! a) = nat max_length" if "a \<in> set refs" for a
  proof -
    from that have "heap st' ! a \<in> (\<lambda>a. heap st' ! a) ` set refs"
      by (rule imageI)
    then have "length (heap st' ! a) = nat max_length"
      unfolding img by simp
    moreover from that have "length (heap st) \<le> a \<and> a < length (heap st')"
      by (simp add: refs_def heap')
    ultimately show ?thesis by simp
  qed
  have once: "distinct (map (\<lambda>a. heap st' ! a) refs)"
    using assms(1) by (simp add: deref news_def distinct_sequences_of)
  from run cur old res len dist fresh img once show ?thesis
    by blast
qed

theorem permute_all_sequences_witness:
  "distinct [0::nat, 1] \<and> (0::int) \<le> 3 \<and> nat 3 < (4::nat)
   \<and> permute 4 0 3 \<lparr>heap = [[]], result = []\<rparr> [0::nat, 1]
       = Inr \<lparr>heap = [[], [0, 0, 0], [0, 0, 1], [0, 1, 0], [0, 1, 1],
                       [1, 0, 0], [1, 0, 1], [1, 1, 0], [1, 1, 1]],
               result = [1, 2, 3, 4, 5, 6, 7, 8]\<rparr>
   \<and> length [1, 2, 3, 4, 5, 6, 7, 8 :: nat] = card (set [0::nat, 1]) ^ nat 3"
proof -
  let ?st = "\<lparr>heap = [[]], result = []\<rparr> :: nat pstore"
  have run: "permute 4 0 3 ?st [0::nat, 1]
       = Inr \<lparr>heap = [[], [0, 0, 0], [0, 0, 1], [0, 1, 0], [0, 1, 1],
                       [1, 0, 0], [1, 0, 1], [1, 1, 0], [1, 1, 1]],
               result = [1, 2, 3, 4, 5, 6, 7, 8]\<rparr>"
    by code_simp
  have h: "distinct [0::nat, 1]" "(0::int) \<le> 3" "0 < length (heap ?st)"
    "heap ?st ! 0 = []" "nat 3 < (4::nat)"
    by simp_all
  from permute_all_sequences [OF h] obtain st' refs
    where "permute 4 0 3 ?st [0::nat, 1] = Inr st'"
      and "result st' = result ?st @ refs"
      and "length refs = card (set [0::nat, 1]) ^ nat 3"
    by blast
  with run have "length [1, 2, 3, 4, 5, 6, 7, 8 :: nat] = card (set [0::nat, 1]) ^ nat 3"
    by auto
  with run h show ?thesis by blast
qed

end
